theory Spec2Isabelle
  imports Complex_Main
begin

section \<open>video\_stream.py: the frame source\<close>

text \<open>
  Python \<open>bytes\<close> are lists of 8-bit characters. A raw frame (a numpy array) is a value of
  an arbitrary type \<open>'f\<close>: the program never looks inside one, it only hands it from the
  capture device (or the synthetic generator) to the encoder.
\<close>

type_synonym bytes = string

text \<open>
  The exceptions the modelled code can raise without raising them itself. In the capture
  loop, \<open>1 / self.simulation_fps\<close> divides by zero when the rate is zero, \<open>time.sleep\<close>
  refuses a duration that does not fit its clock type or is negative, and the encoder can
  raise \<open>cv2.error\<close> instead of returning. Rates and durations are real numbers; the
  floats that are not numbers (NaN, the infinities) have no counterpart here.
\<close>

datatype exn =
  ZeroDivisionError | ValueError | TypeError | OverflowError | KeyError string | Cv2Error

text \<open>
  What the capture thread does to the world outside the object, in the order it does it:
  calls on the \<open>cv2.VideoCapture\<close> handle, the synthetic generator, the encoder, writes to
  the shared slot and sleeps.
\<close>

datatype cap_prop = CAP_PROP_FRAME_WIDTH | CAP_PROP_FRAME_HEIGHT

datatype 'f event =
    VideoCapture int
  | CapSet cap_prop int
  | CapRead bool
  | SimulationFrame
  | Imencode 'f
  | SetLatest bytes
  | Sleep real
  | CapRelease

text \<open>
  The fields of \<open>FrameSource\<close>. The lock only makes the bodies of \<open>get_latest_jpeg\<close> and
  \<open>_set_latest\<close> atomic, so each of them is one step of the model; the thread object is
  the loop below. \<open>trace\<close> is the log of effects, oldest first.
\<close>

record 'f frame_source =
  camera_index :: int
  simulation_fps :: real
  latest_jpeg :: "bytes option"
  stop_event :: bool
  simulation_mode :: bool
  trace :: "'f event list"

definition init :: "int \<Rightarrow> real \<Rightarrow> 'f frame_source" where
  "init cam rate =
     \<lparr>camera_index = cam, simulation_fps = rate, latest_jpeg = None,
      stop_event = False, simulation_mode = False, trace = []\<rparr>"

definition emit :: "'f event \<Rightarrow> 'f frame_source \<Rightarrow> 'f frame_source" where
  "emit e s = s\<lparr>trace := trace s @ [e]\<rparr>"

text \<open>\<open>stop\<close> sets the event; the bounded \<open>join\<close> only waits and changes no field.\<close>

definition stop :: "'f frame_source \<Rightarrow> 'f frame_source" where
  "stop s = s\<lparr>stop_event := True\<rparr>"

definition get_latest_jpeg :: "'f frame_source \<Rightarrow> bytes option \<times> 'f frame_source" where
  "get_latest_jpeg s = (latest_jpeg s, s)"

definition set_latest :: "bytes \<Rightarrow> 'f frame_source \<Rightarrow> 'f frame_source" where
  "set_latest jpeg_bytes s = emit (SetLatest jpeg_bytes) (s\<lparr>latest_jpeg := Some jpeg_bytes\<rparr>)"

text \<open>
  The parts of OpenCV the loop depends on: whether the device opened, what the encoder
  does with a frame (it raises, or it returns its \<open>ok\<close> flag and buffer: \<open>None\<close> when the
  flag is false), and the image that \<open>_simulation_frame\<close> draws.
\<close>

record 'f cv2 =
  is_opened :: bool
  imencode :: "'f \<Rightarrow> exn + bytes option"
  simulation_frame :: 'f

text \<open>
  What the rest of the world contributes to one test of the \<open>while\<close> condition and the
  iteration after it: whether another thread has called \<open>stop\<close> by then, and what
  \<open>cap.read()\<close> returns if the iteration calls it.
\<close>

record 'f cycle_env =
  stop_called :: bool
  cap_read :: "bool \<times> 'f"

text \<open>
  \<open>time.sleep(1 / self.simulation_fps)\<close>, with the ways it can raise. The division raises
  for a zero rate. \<open>time.sleep\<close> converts the duration to a signed 64-bit count of
  nanoseconds, rounding away from zero, and raises \<open>OverflowError\<close> when the count does
  not fit; a count that fits and is negative is refused with \<open>ValueError\<close>.
\<close>

definition PyTime_MIN :: int where
  "PyTime_MIN = - (2 ^ 63)"

definition PyTime_MAX :: int where
  "PyTime_MAX = 2 ^ 63 - 1"

definition nanoseconds :: "real \<Rightarrow> int" where
  "nanoseconds secs =
     (if 0 \<le> secs then \<lceil>secs * 1000000000\<rceil> else \<lfloor>secs * 1000000000\<rfloor>)"

definition sleep_cycle :: "'f frame_source \<Rightarrow> exn option \<times> 'f frame_source" where
  "sleep_cycle s =
     (if simulation_fps s = 0 then (Some ZeroDivisionError, s)
      else if nanoseconds (1 / simulation_fps s) < PyTime_MIN
            \<or> PyTime_MAX < nanoseconds (1 / simulation_fps s) then (Some OverflowError, s)
      else if nanoseconds (1 / simulation_fps s) < 0 then (Some ValueError, s)
      else (None, emit (Sleep (1 / simulation_fps s)) s))"

text \<open>
  Lines 52 to 55: encode, publish when the encoder says ok, sleep. Nothing in the loop
  catches an exception of the encoder, so it leaves the thread.
\<close>

definition encode_publish :: "'f cv2 \<Rightarrow> 'f \<Rightarrow> 'f frame_source \<Rightarrow> exn option \<times> 'f frame_source" where
  "encode_publish cv frame s =
     (let s1 = emit (Imencode frame) s in
      case imencode cv frame of
        Inl x \<Rightarrow> (Some x, s1)
      | Inr (Some buffer) \<Rightarrow> sleep_cycle (set_latest buffer s1)
      | Inr None \<Rightarrow> sleep_cycle s1)"

text \<open>The body of the \<open>while\<close> loop. A failed read sets the mode and \<open>continue\<close>s.\<close>

definition loop_body :: "'f cv2 \<Rightarrow> 'f cycle_env \<Rightarrow> 'f frame_source \<Rightarrow> exn option \<times> 'f frame_source" where
  "loop_body cv e s =
     (if simulation_mode s then
        encode_publish cv (simulation_frame cv) (emit SimulationFrame s)
      else
        (case cap_read e of (ok, frame) \<Rightarrow>
           if \<not> ok then (None, (emit (CapRead False) s)\<lparr>simulation_mode := True\<rparr>)
           else encode_publish cv frame (emit (CapRead True) s)))"

text \<open>
  How an observed stretch of the loop ends: the stop event was seen, an exception left
  the thread, or the loop is still running when the observations end.
\<close>

datatype outcome = Stopped | Raised exn | Running

fun capture_cycles :: "'f cv2 \<Rightarrow> 'f cycle_env list \<Rightarrow> 'f frame_source \<Rightarrow> outcome \<times> 'f frame_source" where
  "capture_cycles cv [] s = (Running, s)"
| "capture_cycles cv (e # es) s =
     (let s0 = (if stop_called e then stop s else s) in
      if stop_event s0 then (Stopped, s0)
      else (case loop_body cv e s0 of
              (Some x, s') \<Rightarrow> (Raised x, s')
            | (None, s') \<Rightarrow> capture_cycles cv es s'))"

definition capture_loop :: "'f cv2 \<Rightarrow> 'f cycle_env list \<Rightarrow> 'f frame_source \<Rightarrow> outcome \<times> 'f frame_source" where
  "capture_loop cv es s =
     (let s1 = emit (VideoCapture (camera_index s)) s;
          s2 = (if \<not> is_opened cv then s1\<lparr>simulation_mode := True\<rparr>
                else emit (CapSet CAP_PROP_FRAME_HEIGHT 480) (emit (CapSet CAP_PROP_FRAME_WIDTH 640) s1))
      in case capture_cycles cv es s2 of
           (Stopped, s3) \<Rightarrow> (Stopped, if \<not> simulation_mode s3 then emit CapRelease s3 else s3)
         | r \<Rightarrow> r)"

section \<open>video\_stream.py: the MJPEG stream\<close>

text \<open>
  One iteration of the generator reads the global \<open>frame_source\<close> and, through it, the
  slot. The list holds what each successive iteration finds there (\<open>None\<close> while the
  global is still unset); the result lists what the generator does in answer, one entry
  per iteration: a sleep of the given number of seconds, or a part handed to the
  response. The generator has no exit of its own, so a finite list of observations stands
  for the connection's lifetime up to the point where the client goes away.
\<close>

datatype stream_event = Wait real | Yield bytes

fun mjpeg_stream :: "'f frame_source option list \<Rightarrow> stream_event list" where
  "mjpeg_stream [] = []"
| "mjpeg_stream (g # gs) =
     (case g of
        None \<Rightarrow> Wait (1 / 10) # mjpeg_stream gs
      | Some fs \<Rightarrow>
          (case fst (get_latest_jpeg fs) of
             None \<Rightarrow> Wait (5 / 100) # mjpeg_stream gs
           | Some jpeg \<Rightarrow>
               Yield (''--frame'' @ [CHR 0x0D, CHR 0x0A] @ ''Content-Type: image/jpeg''
                        @ [CHR 0x0D, CHR 0x0A, CHR 0x0D, CHR 0x0A] @ jpeg @ [CHR 0x0D, CHR 0x0A])
                 # mjpeg_stream gs))"

record response =
  mimetype :: string
  body :: "stream_event list"

definition stream :: "'f frame_source option list \<Rightarrow> response" where
  "stream gs = \<lparr>mimetype = ''multipart/x-mixed-replace; boundary=frame'', body = mjpeg_stream gs\<rparr>"

section \<open>The Python builtins both programs call\<close>

text \<open>
  A Python object is a \<open>str\<close>, an \<open>int\<close>, or something else (a float, a bool, \<open>None\<close>, a
  list, a dict), of which the model only needs what \<open>str\<close> and \<open>int\<close> make of it. Text is
  kept as its UTF-8 bytes: \<open>rstrip("/")\<close> and \<open>startswith("https://")\<close> act on ASCII
  bytes only, so they are the same on bytes and on code points. The builtins whose
  result depends on Python's number grammar, on the Unicode tables or on the class of an
  object are parameters: \<open>int\<close> of a string, \<open>int\<close> and \<open>str\<close> of an object that is neither
  a string nor an integer, and \<open>str.upper\<close>.
\<close>

datatype 'a pyval = PyStr string | PyInt int | PyObj 'a

record 'a python =
  int_of_str :: "string \<Rightarrow> exn + int"
  int_of_obj :: "'a \<Rightarrow> exn + int"
  str_of_obj :: "'a \<Rightarrow> string"
  upper :: "string \<Rightarrow> string"

text \<open>\<open>str\<close> of an integer: its decimal digits, after a minus sign when it is negative.\<close>

function decimal_digits :: "nat \<Rightarrow> string" where
  "decimal_digits n =
     (if n < 10 then [''0123456789'' ! n]
      else decimal_digits (n div 10) @ [''0123456789'' ! (n mod 10)])"
  by pat_completeness auto
termination
  by (relation "measure id") auto

declare decimal_digits.simps [simp del]

definition str_of_int :: "int \<Rightarrow> string" where
  "str_of_int n = (if n < 0 then CHR ''-'' # decimal_digits (nat (- n)) else decimal_digits (nat n))"

fun py_str :: "'a python \<Rightarrow> 'a pyval \<Rightarrow> string" where
  "py_str py (PyStr s) = s"
| "py_str py (PyInt n) = str_of_int n"
| "py_str py (PyObj x) = str_of_obj py x"

fun py_int :: "'a python \<Rightarrow> 'a pyval \<Rightarrow> exn + int" where
  "py_int py (PyStr s) = int_of_str py s"
| "py_int py (PyInt n) = Inr n"
| "py_int py (PyObj x) = int_of_obj py x"

definition rstrip :: "char \<Rightarrow> string \<Rightarrow> string" where
  "rstrip c s = rev (dropWhile (\<lambda>x. x = c) (rev s))"

definition startswith :: "string \<Rightarrow> string \<Rightarrow> bool" where
  "startswith s p = (take (length p) s = p)"

fun join :: "string \<Rightarrow> string list \<Rightarrow> string" where
  "join sep [] = []"
| "join sep [x] = x"
| "join sep (x # y # ys) = x @ sep @ join sep (y # ys)"

section \<open>video\_stream.py: start-up\<close>

text \<open>
  \<open>cli\<close> holds the options given on the command line, already converted by argparse
  (\<open>None\<close> for an option that was not given); \<open>environ\<close> is the process environment.
  The default of \<open>--port\<close> is computed when the option is declared, whether or not the
  option is given.
\<close>

record cli =
  opt_host :: "string option"
  opt_port :: "int option"
  opt_camera :: "int option"
  opt_fps :: "real option"

record args =
  host :: string
  port :: int
  camera :: int
  fps :: real

definition getenv :: "(string \<rightharpoonup> string) \<Rightarrow> string \<Rightarrow> string \<Rightarrow> string" where
  "getenv environ k d = (case environ k of None \<Rightarrow> d | Some v \<Rightarrow> v)"

definition parse_args :: "'a python \<Rightarrow> (string \<rightharpoonup> string) \<Rightarrow> cli \<Rightarrow> exn + args" where
  "parse_args py environ cl =
     (case int_of_str py (getenv environ ''MJPEG_PORT'' ''8080'') of
        Inl x \<Rightarrow> Inl x
      | Inr default_port \<Rightarrow>
          Inr \<lparr>host = (case opt_host cl of None \<Rightarrow> ''0.0.0.0'' | Some h \<Rightarrow> h),
               port = (case opt_port cl of None \<Rightarrow> default_port | Some p \<Rightarrow> p),
               camera = (case opt_camera cl of None \<Rightarrow> 0 | Some c \<Rightarrow> c),
               fps = (case opt_fps cl of None \<Rightarrow> 10 | Some r \<Rightarrow> r)\<rparr>)"

text \<open>
  \<open>main\<close> builds the frame source from the parsed arguments, starts its thread and hands
  host and port to \<open>app.run\<close>: the result is the frame source as constructed and the
  address the server binds.
\<close>

record 'f server =
  source :: "'f frame_source"
  bind_host :: string
  bind_port :: int
  threaded :: bool

definition main :: "'a python \<Rightarrow> (string \<rightharpoonup> string) \<Rightarrow> cli \<Rightarrow> exn + 'f server" where
  "main py environ cl =
     (case parse_args py environ cl of
        Inl x \<Rightarrow> Inl x
      | Inr a \<Rightarrow>
          Inr \<lparr>source = init (camera a) (fps a), bind_host = host a, bind_port = port a,
               threaded = True\<rparr>)"

section \<open>agent.py: validate\_config\<close>

text \<open>
  \<open>validate_config\<close> raises the program's own \<open>ConfigError\<close>, with its message, or lets a
  built-in exception of \<open>int\<close> pass.
\<close>

datatype agent_exn = Builtin exn | ConfigError string

definition DEFAULT_TELEMETRY_INTERVAL :: int where
  "DEFAULT_TELEMETRY_INTERVAL = 5"

text \<open>
  The required keys, listed in code-point order (\<open>X\<close> sorts before \<open>_\<close>), so that the
  keys of the list that are missing are already \<open>sorted(missing)\<close>.
\<close>

definition required_keys :: "string list" where
  "required_keys = [''DRONEX_URL'', ''DRONE_ID'', ''DRONE_TOKEN'', ''MODE'', ''TELEMETRY_INTERVAL'']"

definition subscript :: "(string \<rightharpoonup> 'v) \<Rightarrow> string \<Rightarrow> agent_exn + 'v" where
  "subscript config k = (case config k of None \<Rightarrow> Inl (Builtin (KeyError k)) | Some v \<Rightarrow> Inr v)"

definition dict_get :: "(string \<rightharpoonup> 'v) \<Rightarrow> string \<Rightarrow> 'v \<Rightarrow> 'v" where
  "dict_get config k d = (case config k of None \<Rightarrow> d | Some v \<Rightarrow> v)"

definition validate_config :: "'a python \<Rightarrow> (string \<rightharpoonup> 'a pyval) \<Rightarrow> agent_exn + (string \<rightharpoonup> 'a pyval)" where
  "validate_config py config =
     (let missing = filter (\<lambda>k. config k = None) required_keys in
      if missing \<noteq> [] then Inl (ConfigError (''Missing config keys: '' @ join '', '' missing))
      else
        (case subscript config ''DRONEX_URL'' of
           Inl x \<Rightarrow> Inl x
         | Inr url \<Rightarrow>
             let dronex_url = rstrip CHR ''/'' (py_str py url) in
             if \<not> startswith dronex_url ''https://'' then
               Inl (ConfigError ''DRONEX_URL must start with https://'')
             else
               (case subscript config ''MODE'' of
                  Inl x \<Rightarrow> Inl x
                | Inr m \<Rightarrow>
                    let mode = upper py (py_str py m) in
                    if mode \<notin> {''SIMULATION'', ''MAVLINK''} then
                      Inl (ConfigError ''MODE must be SIMULATION or MAVLINK'')
                    else
                      (case py_int py (dict_get config ''TELEMETRY_INTERVAL''
                                         (PyInt DEFAULT_TELEMETRY_INTERVAL)) of
                         Inl x \<Rightarrow> Inl (Builtin x)
                       | Inr interval \<Rightarrow>
                           if interval \<le> 0 then
                             Inl (ConfigError ''TELEMETRY_INTERVAL must be > 0'')
                           else
                             Inr (config(''DRONEX_URL'' \<mapsto> PyStr dronex_url,
                                         ''MODE'' \<mapsto> PyStr mode,
                                         ''TELEMETRY_INTERVAL'' \<mapsto> PyInt interval))))))"

definition is_config_error :: "agent_exn + 'b \<Rightarrow> bool" where
  "is_config_error r = (case r of Inl (ConfigError _) \<Rightarrow> True | _ \<Rightarrow> False)"

section \<open>Vocabulary for the properties\<close>

text \<open>
  The places of a trace where the session enters the synthetic mode: the open that
  failed, or a read that failed. An event is compatible with the synthetic mode when it
  is not a hardware read, and when a frame handed to the encoder is the synthetic one.
  A trace is latched when everything after an entry is compatible with the synthetic mode.
\<close>

definition entry :: "'f cv2 \<Rightarrow> 'f event \<Rightarrow> bool" where
  "entry cv ev = (case ev of VideoCapture _ \<Rightarrow> \<not> is_opened cv | CapRead ok \<Rightarrow> \<not> ok | _ \<Rightarrow> False)"

definition synthetic_only :: "'f cv2 \<Rightarrow> 'f event \<Rightarrow> bool" where
  "synthetic_only cv ev =
     (case ev of CapRead _ \<Rightarrow> False | Imencode f \<Rightarrow> f = simulation_frame cv | _ \<Rightarrow> True)"

fun latched :: "'f cv2 \<Rightarrow> 'f event list \<Rightarrow> bool" where
  "latched cv [] = True"
| "latched cv (ev # evs) =
     ((if entry cv ev then list_all (synthetic_only cv) evs else True) \<and> latched cv evs)"

definition loop_inv :: "'f cv2 \<Rightarrow> 'f frame_source \<Rightarrow> bool" where
  "loop_inv cv s = (simulation_mode s = list_ex (entry cv) (trace s) \<and> latched cv (trace s))"

text \<open>
  What one cycle in the synthetic mode leaves in the trace: the call of the generator,
  the encoder called on the generator's frame, the publish of what the encoder returned
  (when it returned bytes), and the sleep (unless the encoder or the sleep raised).
\<close>

fun sleep_tail :: "'f event list \<Rightarrow> bool" where
  "sleep_tail [] = True"
| "sleep_tail [Sleep d] = True"
| "sleep_tail evs = False"

fun synthetic_block :: "'f cv2 \<Rightarrow> 'f event list \<Rightarrow> bool" where
  "synthetic_block cv (SimulationFrame # Imencode f # rest) =
     (f = simulation_frame cv \<and>
      (case imencode cv f of
         Inl x \<Rightarrow> rest = []
       | Inr None \<Rightarrow> sleep_tail rest
       | Inr (Some b) \<Rightarrow> (case rest of SetLatest b' # evs \<Rightarrow> b' = b \<and> sleep_tail evs | _ \<Rightarrow> False)))"
| "synthetic_block cv evs = False"

text \<open>The state in which the loop is entered: lines 37 to 42.\<close>

definition opened :: "'f cv2 \<Rightarrow> 'f frame_source \<Rightarrow> 'f frame_source" where
  "opened cv s =
     (let s1 = emit (VideoCapture (camera_index s)) s in
      if \<not> is_opened cv then s1\<lparr>simulation_mode := True\<rparr>
      else emit (CapSet CAP_PROP_FRAME_HEIGHT 480) (emit (CapSet CAP_PROP_FRAME_WIDTH 640) s1))"

text \<open>
  The rates with which the sleep at the end of a cycle returns: positive, and with a
  period of at most \<open>PyTime_MAX\<close> nanoseconds.
\<close>

definition period_accepted :: "real \<Rightarrow> bool" where
  "period_accepted rate = (0 < rate \<and> nanoseconds (1 / rate) \<le> PyTime_MAX)"

text \<open>
  The raw frame a cycle acquires in state \<open>s\<close> (none when the hardware read fails), and
  the event that acquiring it leaves in the trace.
\<close>

definition frame_of :: "'f cv2 \<Rightarrow> 'f cycle_env \<Rightarrow> 'f frame_source \<Rightarrow> 'f option" where
  "frame_of cv e s =
     (if simulation_mode s then Some (simulation_frame cv)
      else if fst (cap_read e) then Some (snd (cap_read e)) else None)"

definition acquisition :: "'f frame_source \<Rightarrow> 'f event" where
  "acquisition s = (if simulation_mode s then SimulationFrame else CapRead True)"

text \<open>
  A successful encode-and-publish cycle in state \<open>s\<close>: the loop is not stopped before it,
  it acquires a frame, and the encoder turns that frame into the bytes \<open>b\<close>.
\<close>

definition successful :: "'f cv2 \<Rightarrow> 'f frame_source \<Rightarrow> 'f cycle_env \<Rightarrow> bytes \<Rightarrow> bool" where
  "successful cv s e b =
     (\<not> stop_called e \<and>
      (case frame_of cv e s of None \<Rightarrow> False | Some f \<Rightarrow> imencode cv f = Inr (Some b)))"

text \<open>
  The line terminator of the wire format, for stating the layout of a part in the words
  of the interface description, and the test whether the generator handed out a part.
\<close>

definition CRLF :: bytes where
  "CRLF = [CHR 0x0D, CHR 0x0A]"

definition is_yield :: "stream_event \<Rightarrow> bool" where
  "is_yield ev = (case ev of Yield _ \<Rightarrow> True | Wait _ \<Rightarrow> False)"

text \<open>A command line that gives no option.\<close>

definition no_options :: cli where
  "no_options = \<lparr>opt_host = None, opt_port = None, opt_camera = None, opt_fps = None\<rparr>"

text \<open>
  Everything that can happen to a frame source once it exists: a publish, a read, a call
  of \<open>stop\<close>, one iteration of the loop body, or a whole run of the capture thread.
\<close>

datatype 'f action = Publish bytes | Read | Stop | Cycle "'f cycle_env" | Loop "'f cycle_env list"

fun perform :: "'f cv2 \<Rightarrow> 'f action \<Rightarrow> 'f frame_source \<Rightarrow> 'f frame_source" where
  "perform cv (Publish b) s = set_latest b s"
| "perform cv Read s = snd (get_latest_jpeg s)"
| "perform cv Stop s = stop s"
| "perform cv (Cycle e) s = snd (loop_body cv e s)"
| "perform cv (Loop es) s = snd (capture_loop cv es s)"

text \<open>
  When \<open>validate_config\<close> raises \<open>ConfigError\<close>. \<open>claimed_rejection\<close> follows the words of
  the claim (the URL itself must start with \<open>https://\<close>); \<open>rejection\<close> is the condition
  the code tests (the URL with its trailing slashes stripped must).
\<close>

definition claimed_rejection :: "'a python \<Rightarrow> (string \<rightharpoonup> 'a pyval) \<Rightarrow> bool" where
  "claimed_rejection py config =
     (list_ex (\<lambda>k. config k = None) required_keys \<or>
      (case config ''DRONEX_URL'' of None \<Rightarrow> False
       | Some u \<Rightarrow> \<not> startswith (py_str py u) ''https://'') \<or>
      (case config ''MODE'' of None \<Rightarrow> False
       | Some m \<Rightarrow> upper py (py_str py m) \<notin> {''SIMULATION'', ''MAVLINK''}) \<or>
      (case config ''TELEMETRY_INTERVAL'' of None \<Rightarrow> False
       | Some t \<Rightarrow> (case py_int py t of Inl _ \<Rightarrow> False | Inr n \<Rightarrow> n \<le> 0)))"

definition rejection :: "'a python \<Rightarrow> (string \<rightharpoonup> 'a pyval) \<Rightarrow> bool" where
  "rejection py config =
     (list_ex (\<lambda>k. config k = None) required_keys \<or>
      (case config ''DRONEX_URL'' of None \<Rightarrow> False
       | Some u \<Rightarrow> \<not> startswith (rstrip CHR ''/'' (py_str py u)) ''https://'') \<or>
      (case config ''MODE'' of None \<Rightarrow> False
       | Some m \<Rightarrow> upper py (py_str py m) \<notin> {''SIMULATION'', ''MAVLINK''}) \<or>
      (case config ''TELEMETRY_INTERVAL'' of None \<Rightarrow> False
       | Some t \<Rightarrow> (case py_int py t of Inl _ \<Rightarrow> False | Inr n \<Rightarrow> n \<le> 0)))"

text \<open>Concrete inputs on which the definitions are evaluated below.\<close>

definition cv_demo :: "string cv2" where
  "cv_demo = \<lparr>is_opened = True,
              imencode = (\<lambda>f. if f = [] then Inr None else Inr (Some (''JPEG:'' @ f))),
              simulation_frame = ''SIMULATION FEED''\<rparr>"

definition env :: "bool \<Rightarrow> bool \<Rightarrow> string \<Rightarrow> string cycle_env" where
  "env st ok f = \<lparr>stop_called = st, cap_read = (ok, f)\<rparr>"

definition slot :: "bytes option \<Rightarrow> string frame_source" where
  "slot j = (init 0 10)\<lparr>latest_jpeg := j\<rparr>"

text \<open>
  An instance of the builtins to evaluate the definitions with: \<open>upper\<close> on ASCII text,
  \<open>int\<close> on a non-empty string of decimal digits (any other string counts as rejected
  here, which the inputs below do not depend on), and \<open>None\<close> as the only object that is
  neither a string nor an integer. The theorems about the programs hold for every choice
  of the builtins, not only for this one.
\<close>

definition ascii_upper :: "string \<Rightarrow> string" where
  "ascii_upper s =
     map (\<lambda>c. case map_of (zip ''abcdefghijklmnopqrstuvwxyz'' ''ABCDEFGHIJKLMNOPQRSTUVWXYZ'') c of
                None \<Rightarrow> c | Some u \<Rightarrow> u) s"

definition decimal :: "string \<Rightarrow> exn + int" where
  "decimal s =
     (if s \<noteq> [] \<and> list_all (\<lambda>c. 48 \<le> (of_char c :: nat) \<and> (of_char c :: nat) \<le> 57) s
      then Inr (foldl (\<lambda>a c. 10 * a + (of_char c - 48)) 0 s)
      else Inl ValueError)"

definition py_ascii :: "unit python" where
  "py_ascii = \<lparr>int_of_str = decimal, int_of_obj = (\<lambda>_. Inl TypeError),
               str_of_obj = (\<lambda>_. ''None''), upper = ascii_upper\<rparr>"

definition config_demo :: "string \<Rightarrow> string \<Rightarrow> unit pyval \<Rightarrow> (string \<rightharpoonup> unit pyval)" where
  "config_demo url mode interval =
     [''DRONEX_URL'' \<mapsto> PyStr url, ''DRONE_ID'' \<mapsto> PyStr ''drone-1'',
      ''DRONE_TOKEN'' \<mapsto> PyStr ''secret'', ''MODE'' \<mapsto> PyStr mode,
      ''TELEMETRY_INTERVAL'' \<mapsto> interval]"

section \<open>The capture loop keeps its invariant\<close>

lemma latched_append:
  "latched cv (xs @ ys) =
     (latched cv xs \<and> latched cv ys \<and> (list_ex (entry cv) xs \<longrightarrow> list_all (synthetic_only cv) ys))"
  by (induction xs) auto

lemma latched_nth:
  "latched cv t \<Longrightarrow> i < j \<Longrightarrow> j < length t \<Longrightarrow> entry cv (t ! i) \<Longrightarrow> synthetic_only cv (t ! j)"
proof (induction t arbitrary: i j)
  case Nil
  then show ?case by simp
next
  case (Cons ev evs)
  show ?case
  proof (cases i)
    case 0
    with Cons.prems have all: "list_all (synthetic_only cv) evs" by simp
    from Cons.prems 0 obtain j' where j': "j = Suc j'" "j' < length evs"
      by (cases j) auto
    with all show ?thesis by (simp add: list_all_length)
  next
    case (Suc i')
    with Cons.prems obtain j' where j': "j = Suc j'" "i' < j'" "j' < length evs"
      by (cases j) auto
    with Cons.IH [of i' j'] Cons.prems Suc show ?thesis by simp
  qed
qed

lemma sleep_cycle_inv:
  "loop_inv cv s \<Longrightarrow> sleep_cycle s = (x, s') \<Longrightarrow> loop_inv cv s'"
  by (auto simp: sleep_cycle_def loop_inv_def emit_def latched_append entry_def synthetic_only_def
           split: if_splits)

lemma loop_body_inv:
  "loop_inv cv s \<Longrightarrow> loop_body cv e s = (x, s') \<Longrightarrow> loop_inv cv s'"
  by (auto simp: loop_body_def encode_publish_def sleep_cycle_def set_latest_def loop_inv_def emit_def
        latched_append entry_def synthetic_only_def Let_def
           split: if_splits option.splits prod.splits sum.splits)

lemma stop_inv: "loop_inv cv (stop s) = loop_inv cv s"
  by (simp add: stop_def loop_inv_def)

lemma capture_cycles_inv:
  "loop_inv cv s \<Longrightarrow> capture_cycles cv es s = (r, s') \<Longrightarrow> loop_inv cv s'"
proof (induction es arbitrary: s)
  case Nil
  then show ?case by simp
next
  case (Cons e es)
  define s0 where "s0 = (if stop_called e then stop s else s)"
  have inv0: "loop_inv cv s0" using Cons.prems(1) by (simp add: s0_def stop_inv)
  show ?case
  proof (cases "stop_event s0")
    case True
    with Cons.prems(2) have "s' = s0" by (simp add: s0_def Let_def)
    with inv0 show ?thesis by simp
  next
    case False
    obtain x s1 where body: "loop_body cv e s0 = (x, s1)" by (cases "loop_body cv e s0")
    have inv1: "loop_inv cv s1" using loop_body_inv [OF inv0 body] .
    show ?thesis
    proof (cases x)
      case None
      with Cons.prems(2) False body have "capture_cycles cv es s1 = (r, s')"
        by (simp add: s0_def Let_def)
      with Cons.IH inv1 show ?thesis by blast
    next
      case (Some a)
      with Cons.prems(2) False body have "s' = s1" by (simp add: s0_def Let_def)
      with inv1 show ?thesis by simp
    qed
  qed
qed

lemma capture_loop_inv:
  assumes "capture_loop cv es (init cam rate) = (r, s)"
  shows "loop_inv cv s"
proof -
  define s2 :: "'a frame_source" where "s2 = (let s1 = emit (VideoCapture cam) (init cam rate) in
     if \<not> is_opened cv then s1\<lparr>simulation_mode := True\<rparr>
     else emit (CapSet CAP_PROP_FRAME_HEIGHT 480) (emit (CapSet CAP_PROP_FRAME_WIDTH 640) s1))"
  have inv2: "loop_inv cv s2"
    by (simp add: s2_def loop_inv_def emit_def init_def entry_def synthetic_only_def Let_def)
  obtain r3 s3 where c: "capture_cycles cv es s2 = (r3, s3)" by (cases "capture_cycles cv es s2")
  have inv3: "loop_inv cv s3" using capture_cycles_inv [OF inv2 c] .
  have "s = (if r3 = Stopped \<and> \<not> simulation_mode s3 then emit CapRelease s3 else s3)"
    using assms c by (cases r3) (auto simp: capture_loop_def s2_def Let_def init_def)
  with inv3 show ?thesis
    by (auto simp: loop_inv_def emit_def latched_append entry_def synthetic_only_def)
qed

lemma synthetic_cycle:
  assumes "simulation_mode s" and "loop_body cv e s = (x, s')"
  shows "simulation_mode s' \<and> (\<exists>blk. trace s' = trace s @ blk \<and> synthetic_block cv blk)"
  using assms
  by (auto simp: loop_body_def encode_publish_def sleep_cycle_def set_latest_def emit_def Let_def
           split: if_splits option.splits sum.splits)

lemma synthetic_cycles:
  assumes "simulation_mode s" and "capture_cycles cv es s = (r, s')"
  shows "simulation_mode s' \<and>
         (\<exists>blocks. trace s' = trace s @ concat blocks \<and> list_all (synthetic_block cv) blocks \<and>
            length blocks \<le> length es \<and> (r = Running \<longrightarrow> length blocks = length es))"
  using assms
proof (induction es arbitrary: s)
  case Nil
  then have "s' = s" "r = Running" by simp_all
  with Nil.prems(1) show ?case by (auto intro: exI [of _ "[]"])
next
  case (Cons e es)
  define s0 where "s0 = (if stop_called e then stop s else s)"
  have m0: "simulation_mode s0" and t0: "trace s0 = trace s"
    using Cons.prems(1) by (simp_all add: s0_def stop_def)
  show ?case
  proof (cases "stop_event s0")
    case True
    with Cons.prems(2) have "s' = s0" "r = Stopped" by (simp_all add: s0_def Let_def)
    with m0 t0 show ?thesis by (auto intro: exI [of _ "[]"])
  next
    case False
    obtain x s1 where b: "loop_body cv e s0 = (x, s1)" by (cases "loop_body cv e s0")
    from synthetic_cycle [OF m0 b] obtain blk where m1: "simulation_mode s1"
      and t1: "trace s1 = trace s0 @ blk" and blk: "synthetic_block cv blk"
      by blast
    show ?thesis
    proof (cases x)
      case (Some a)
      with Cons.prems(2) False b have "s' = s1" "r = Raised a" by (simp_all add: s0_def Let_def)
      with m1 t1 t0 blk show ?thesis by (auto intro: exI [of _ "[blk]"])
    next
      case None
      with Cons.prems(2) False b have c: "capture_cycles cv es s1 = (r, s')"
        by (simp add: s0_def Let_def)
      from Cons.IH [OF m1 c] obtain blocks where m': "simulation_mode s'"
        and t': "trace s' = trace s1 @ concat blocks"
        and all: "list_all (synthetic_block cv) blocks"
        and len: "length blocks \<le> length es" "r = Running \<longrightarrow> length blocks = length es"
        by blast
      have "trace s' = trace s @ concat (blk # blocks)" using t' t1 t0 by simp
      moreover have "list_all (synthetic_block cv) (blk # blocks)" using all blk by simp
      moreover have "length (blk # blocks) \<le> length (e # es)" using len by simp
      moreover have "r = Running \<longrightarrow> length (blk # blocks) = length (e # es)" using len by simp
      ultimately show ?thesis using m' by blast
    qed
  qed
qed

lemma capture_cycles_append:
  "capture_cycles cv pre s = (Running, s1) \<Longrightarrow>
   capture_cycles cv (pre @ post) s = capture_cycles cv post s1"
proof (induction pre arbitrary: s)
  case Nil
  then show ?case by simp
next
  case (Cons e pre)
  define s0 where "s0 = (if stop_called e then stop s else s)"
  from Cons.prems have live: "\<not> stop_event s0"
    by (auto simp: s0_def Let_def split: if_splits)
  obtain x s2 where b: "loop_body cv e s0 = (x, s2)" by (cases "loop_body cv e s0")
  from Cons.prems live b have x: "x = None"
    by (cases x) (auto simp: s0_def Let_def)
  from Cons.prems live b x have "capture_cycles cv pre s2 = (Running, s1)"
    by (simp add: s0_def Let_def)
  from Cons.IH [OF this] live b x show ?case by (simp add: s0_def Let_def)
qed

lemma capture_loop_cases:
  "capture_loop cv es s =
     (case capture_cycles cv es (opened cv s) of
        (Stopped, s3) \<Rightarrow> (Stopped, if \<not> simulation_mode s3 then emit CapRelease s3 else s3)
      | r \<Rightarrow> r)"
  by (simp add: capture_loop_def opened_def Let_def)

lemma capture_loop_running:
  "capture_loop cv es s = (Running, s1) \<longleftrightarrow> capture_cycles cv es (opened cv s) = (Running, s1)"
  by (cases "capture_cycles cv es (opened cv s)"; cases "fst (capture_cycles cv es (opened cv s))")
     (auto simp: capture_loop_cases)

lemma capture_loop_synthetic_tail:
  assumes pre: "capture_loop cv pre s = (Running, s1)" and m: "simulation_mode s1"
    and run: "capture_loop cv (pre @ post) s = (r, s')"
  shows "capture_cycles cv post s1 = (r, s')"
proof -
  from pre have c1: "capture_cycles cv pre (opened cv s) = (Running, s1)"
    by (simp add: capture_loop_running)
  note app = capture_cycles_append [OF c1, of post]
  obtain r2 s2 where c2: "capture_cycles cv post s1 = (r2, s2)" by (cases "capture_cycles cv post s1")
  from synthetic_cycles [OF m c2] have "simulation_mode s2" by blast
  with run app c2 show ?thesis by (cases r2) (auto simp: capture_loop_cases)
qed

text \<open>
  C1. Take any run of the producer loop on a fresh frame source. The mode flag is set
  exactly when the trace holds an entry into the synthetic mode (the failed open or a
  failed read), and after such an entry no hardware read is performed and no frame but
  the synthetic one is encoded. Moreover, from any test of the loop condition at which
  the flag is set, the rest of the trace is a sequence of synthetic cycles, each calling
  the generator and encoding its frame, one for every iteration the loop still performs,
  whatever the hardware would have returned; and the flag stays set.
\<close>

theorem synthetic_mode_is_one_way:
  assumes "capture_loop cv es (init cam rate) = (r, s)"
  shows "(simulation_mode s \<longleftrightarrow> (\<exists>k < length (trace s). entry cv (trace s ! k))) \<and>
         (\<forall>i j. i < j \<and> j < length (trace s) \<and> entry cv (trace s ! i)
                 \<longrightarrow> synthetic_only cv (trace s ! j)) \<and>
         (\<forall>pre post s1. es = pre @ post \<and> capture_loop cv pre (init cam rate) = (Running, s1) \<and>
              simulation_mode s1 \<longrightarrow>
            simulation_mode s \<and>
            (\<exists>blocks. trace s = trace s1 @ concat blocks \<and>
               list_all (synthetic_block cv) blocks \<and>
               length blocks \<le> length post \<and>
               (r = Running \<longrightarrow> length blocks = length post)))"
proof -
  have inv: "loop_inv cv s" using capture_loop_inv [OF assms] .
  then have a: "simulation_mode s \<longleftrightarrow> (\<exists>k < length (trace s). entry cv (trace s ! k))"
    by (simp add: loop_inv_def list_ex_length)
  from inv have "latched cv (trace s)" by (simp add: loop_inv_def)
  then have b: "\<forall>i j. i < j \<and> j < length (trace s) \<and> entry cv (trace s ! i)
                 \<longrightarrow> synthetic_only cv (trace s ! j)"
    using latched_nth by blast
  have c: "simulation_mode s \<and>
            (\<exists>blocks. trace s = trace s1 @ concat blocks \<and>
               list_all (synthetic_block cv) blocks \<and>
               length blocks \<le> length post \<and>
               (r = Running \<longrightarrow> length blocks = length post))"
    if split: "es = pre @ post" and pre: "capture_loop cv pre (init cam rate) = (Running, s1)"
      and m: "simulation_mode s1" for pre post s1
  proof -
    from assms split have run: "capture_loop cv (pre @ post) (init cam rate) = (r, s)" by simp
    from capture_loop_synthetic_tail [OF pre m run]
    have "capture_cycles cv post s1 = (r, s)" .
    from synthetic_cycles [OF m this] show ?thesis .
  qed
  from a b c show ?thesis by blast
qed

lemma demo_run:
  "capture_loop cv_demo [env False True ''a'', env False False ''b'', env False True ''c'', env True True ''d''] (init 0 10)
   = (Stopped,
      \<lparr>camera_index = 0, simulation_fps = 10, latest_jpeg = Some ''JPEG:SIMULATION FEED'', stop_event = True,
       simulation_mode = True,
       trace = [VideoCapture 0, CapSet CAP_PROP_FRAME_WIDTH 640, CapSet CAP_PROP_FRAME_HEIGHT 480,
                CapRead True, Imencode ''a'', SetLatest ''JPEG:a'', Sleep (1 / 10),
                CapRead False,
                SimulationFrame, Imencode ''SIMULATION FEED'', SetLatest ''JPEG:SIMULATION FEED'', Sleep (1 / 10)]\<rparr>)"
  by (simp add: capture_loop_def cv_demo_def env_def init_def emit_def Let_def stop_def
        loop_body_def encode_publish_def sleep_cycle_def set_latest_def nanoseconds_def
        PyTime_MIN_def PyTime_MAX_def)

lemma demo_prefix:
  "capture_loop cv_demo [env False True ''a'', env False False ''b''] (init 0 10)
   = (Running,
      \<lparr>camera_index = 0, simulation_fps = 10, latest_jpeg = Some ''JPEG:a'', stop_event = False,
       simulation_mode = True,
       trace = [VideoCapture 0, CapSet CAP_PROP_FRAME_WIDTH 640, CapSet CAP_PROP_FRAME_HEIGHT 480,
                CapRead True, Imencode ''a'', SetLatest ''JPEG:a'', Sleep (1 / 10),
                CapRead False]\<rparr>)"
  by (simp add: capture_loop_def cv_demo_def env_def init_def emit_def Let_def stop_def
        loop_body_def encode_publish_def sleep_cycle_def set_latest_def nanoseconds_def
        PyTime_MIN_def PyTime_MAX_def)

theorem synthetic_mode_is_one_way_witness:
  "(fst (capture_loop cv_demo [env False True ''a'', env False False ''b'', env False True ''c'', env True True ''d''] (init 0 10)) = Stopped \<and>
   entry cv_demo (trace (snd (capture_loop cv_demo [env False True ''a'', env False False ''b'', env False True ''c'', env True True ''d''] (init 0 10))) ! 7) \<and>
   simulation_mode (snd (capture_loop cv_demo [env False True ''a'', env False False ''b'', env False True ''c'', env True True ''d''] (init 0 10))) \<and>
   synthetic_only cv_demo (trace (snd (capture_loop cv_demo [env False True ''a'', env False False ''b'', env False True ''c'', env True True ''d''] (init 0 10))) ! 9)) \<and>
   (fst (capture_loop cv_demo [env False True ''a'', env False False ''b''] (init 0 10)) = Running \<and>
   simulation_mode (snd (capture_loop cv_demo [env False True ''a'', env False False ''b''] (init 0 10))) \<and>
   simulation_mode (snd (capture_loop cv_demo
      [env False True ''a'', env False False ''b'', env False True ''c'', env True True ''d'']
      (init 0 10))) \<and>
   (\<exists>blocks.
      trace (snd (capture_loop cv_demo
        [env False True ''a'', env False False ''b'', env False True ''c'', env True True ''d'']
        (init 0 10)))
      = trace (snd (capture_loop cv_demo [env False True ''a'', env False False ''b''] (init 0 10)))
        @ concat blocks \<and>
      list_all (synthetic_block cv_demo) blocks \<and> length blocks \<le> 2))"
proof -
  have first: "fst (capture_loop cv_demo [env False True ''a'', env False False ''b'', env False True ''c'', env True True ''d''] (init 0 10)) = Stopped \<and>
   entry cv_demo (trace (snd (capture_loop cv_demo [env False True ''a'', env False False ''b'', env False True ''c'', env True True ''d''] (init 0 10))) ! 7) \<and>
   simulation_mode (snd (capture_loop cv_demo [env False True ''a'', env False False ''b'', env False True ''c'', env True True ''d''] (init 0 10))) \<and>
   synthetic_only cv_demo (trace (snd (capture_loop cv_demo [env False True ''a'', env False False ''b'', env False True ''c'', env True True ''d''] (init 0 10))) ! 9)"
  proof -
    let ?s = "snd (capture_loop cv_demo [env False True ''a'', env False False ''b'', env False True ''c'', env True True ''d''] (init 0 10))"
    have t: "trace ?s = [VideoCapture 0, CapSet CAP_PROP_FRAME_WIDTH 640, CapSet CAP_PROP_FRAME_HEIGHT 480,
                  CapRead True, Imencode ''a'', SetLatest ''JPEG:a'', Sleep (1 / 10),
                  CapRead False,
                  SimulationFrame, Imencode ''SIMULATION FEED'', SetLatest ''JPEG:SIMULATION FEED'', Sleep (1 / 10)]"
      by (simp add: demo_run)
    have e: "entry cv_demo (trace ?s ! 7)" by (simp add: t entry_def)
    have run: "capture_loop cv_demo [env False True ''a'', env False False ''b'', env False True ''c'', env True True ''d''] (init 0 10) = (Stopped, ?s)"
      by (simp add: demo_run)
    note latch = synthetic_mode_is_one_way [OF run]
    have "\<exists>k < length (trace ?s). entry cv_demo (trace ?s ! k)"
      using e by (intro exI [of _ 7]) (simp add: t)
    with latch have m: "simulation_mode ?s" by blast
    from latch have "(7::nat) < 9 \<and> 9 < length (trace ?s) \<and> entry cv_demo (trace ?s ! 7)
        \<longrightarrow> synthetic_only cv_demo (trace ?s ! 9)" by blast
    with e have "synthetic_only cv_demo (trace ?s ! 9)" by (simp add: t)
    with e m show ?thesis by (simp add: demo_run)
  qed
  have second: "fst (capture_loop cv_demo [env False True ''a'', env False False ''b''] (init 0 10)) = Running \<and>
   simulation_mode (snd (capture_loop cv_demo [env False True ''a'', env False False ''b''] (init 0 10))) \<and>
   simulation_mode (snd (capture_loop cv_demo
      [env False True ''a'', env False False ''b'', env False True ''c'', env True True ''d'']
      (init 0 10))) \<and>
   (\<exists>blocks.
      trace (snd (capture_loop cv_demo
        [env False True ''a'', env False False ''b'', env False True ''c'', env True True ''d'']
        (init 0 10)))
      = trace (snd (capture_loop cv_demo [env False True ''a'', env False False ''b''] (init 0 10)))
        @ concat blocks \<and>
      list_all (synthetic_block cv_demo) blocks \<and> length blocks \<le> 2)"
  proof -
    let ?pre = "[env False True ''a'', env False False ''b'']"
    let ?post = "[env False True ''c'', env True True ''d'']"
    let ?es = "[env False True ''a'', env False False ''b'', env False True ''c'', env True True ''d'']"
    let ?s1 = "snd (capture_loop cv_demo ?pre (init 0 10))"
    let ?s = "snd (capture_loop cv_demo ?es (init 0 10))"
    have run: "capture_loop cv_demo ?es (init 0 10) = (Stopped, ?s)" by (simp add: demo_run)
    have pre: "capture_loop cv_demo ?pre (init 0 10) = (Running, ?s1)" by (simp add: demo_prefix)
    have r1: "fst (capture_loop cv_demo ?pre (init 0 10)) = Running" by (simp add: demo_prefix)
    have m1: "simulation_mode ?s1" by (simp add: demo_prefix)
    have split: "?es = ?pre @ ?post" by simp
    from synthetic_mode_is_one_way [OF run]
    have "\<forall>pre post s1. ?es = pre @ post \<and> capture_loop cv_demo pre (init 0 10) = (Running, s1) \<and>
                simulation_mode s1 \<longrightarrow>
              simulation_mode ?s \<and>
              (\<exists>blocks. trace ?s = trace s1 @ concat blocks \<and>
                 list_all (synthetic_block cv_demo) blocks \<and>
                 length blocks \<le> length post \<and>
                 (Stopped = Running \<longrightarrow> length blocks = length post))"
      by (rule conjunct2 [THEN conjunct2])
    then have "?es = ?pre @ ?post \<and> capture_loop cv_demo ?pre (init 0 10) = (Running, ?s1) \<and>
                simulation_mode ?s1 \<longrightarrow>
              simulation_mode ?s \<and>
              (\<exists>blocks. trace ?s = trace ?s1 @ concat blocks \<and>
                 list_all (synthetic_block cv_demo) blocks \<and>
                 length blocks \<le> length ?post \<and>
                 (Stopped = Running \<longrightarrow> length blocks = length ?post))"
      by blast
    moreover have "?es = ?pre @ ?post \<and> capture_loop cv_demo ?pre (init 0 10) = (Running, ?s1) \<and>
                simulation_mode ?s1"
      by (intro conjI split pre m1)
    ultimately have concl: "simulation_mode ?s \<and>
              (\<exists>blocks. trace ?s = trace ?s1 @ concat blocks \<and>
                 list_all (synthetic_block cv_demo) blocks \<and>
                 length blocks \<le> length ?post \<and>
                 (Stopped = Running \<longrightarrow> length blocks = length ?post))"
      by (rule mp)
    then have m: "simulation_mode ?s" by (rule conjunct1)
    from concl obtain blocks where "trace ?s = trace ?s1 @ concat blocks"
      "list_all (synthetic_block cv_demo) blocks" "length blocks \<le> length ?post"
      by (elim conjE exE)
    then have "\<exists>blocks. trace ?s = trace ?s1 @ concat blocks \<and>
        list_all (synthetic_block cv_demo) blocks \<and> length blocks \<le> 2"
      by (intro exI [of _ blocks]) simp
    with r1 m1 m show ?thesis by (intro conjI)
  qed
  from first second show ?thesis by (rule conjI)
qed

section \<open>Basic facts about the slot\<close>

lemma latest_emit [simp]: "latest_jpeg (emit e s) = latest_jpeg s"
  by (simp add: emit_def)

lemma latest_set_latest [simp]: "latest_jpeg (set_latest b s) = Some b"
  by (simp add: set_latest_def)

lemma fold_set_latest_snoc:
  "latest_jpeg (fold set_latest (bs @ [b]) s) = Some b"
  by simp

section \<open>Releasing the device\<close>

lemma loop_body_no_release:
  "CapRelease \<notin> set (trace s) \<Longrightarrow> loop_body cv e s = (x, s') \<Longrightarrow> CapRelease \<notin> set (trace s')"
  by (auto simp: loop_body_def encode_publish_def sleep_cycle_def set_latest_def emit_def Let_def
           split: if_splits option.splits prod.splits sum.splits)

lemma capture_cycles_no_release:
  "CapRelease \<notin> set (trace s) \<Longrightarrow> capture_cycles cv es s = (r, s') \<Longrightarrow> CapRelease \<notin> set (trace s')"
proof (induction es arbitrary: s)
  case Nil
  then show ?case by simp
next
  case (Cons e es)
  define s0 where "s0 = (if stop_called e then stop s else s)"
  have t0: "CapRelease \<notin> set (trace s0)" using Cons.prems(1) by (simp add: s0_def stop_def)
  show ?case
  proof (cases "stop_event s0")
    case True
    with Cons.prems(2) have "s' = s0" by (simp add: s0_def Let_def)
    with t0 show ?thesis by simp
  next
    case False
    obtain x s1 where b: "loop_body cv e s0 = (x, s1)" by (cases "loop_body cv e s0")
    have t1: "CapRelease \<notin> set (trace s1)" using loop_body_no_release [OF t0 b] .
    show ?thesis
    proof (cases x)
      case None
      with Cons.prems(2) False b have "capture_cycles cv es s1 = (r, s')"
        by (simp add: s0_def Let_def)
      with Cons.IH t1 show ?thesis by blast
    next
      case (Some a)
      with Cons.prems(2) False b have "s' = s1" by (simp add: s0_def Let_def)
      with t1 show ?thesis by simp
    qed
  qed
qed

lemma capture_loop_release_count:
  assumes "capture_loop cv es (init cam rate) = (r, s)"
  shows "count_list (trace s) CapRelease = (if r = Stopped \<and> \<not> simulation_mode s then 1 else 0)"
proof -
  define s2 :: "'a frame_source" where "s2 = (let s1 = emit (VideoCapture cam) (init cam rate) in
     if \<not> is_opened cv then s1\<lparr>simulation_mode := True\<rparr>
     else emit (CapSet CAP_PROP_FRAME_HEIGHT 480) (emit (CapSet CAP_PROP_FRAME_WIDTH 640) s1))"
  have t2: "CapRelease \<notin> set (trace s2)"
    by (simp add: s2_def emit_def init_def Let_def)
  obtain r3 s3 where c: "capture_cycles cv es s2 = (r3, s3)" by (cases "capture_cycles cv es s2")
  have t3: "CapRelease \<notin> set (trace s3)" using capture_cycles_no_release [OF t2 c] .
  have rs: "r = r3 \<and> s = (if r3 = Stopped \<and> \<not> simulation_mode s3 then emit CapRelease s3 else s3)"
    using assms c by (cases r3) (auto simp: capture_loop_def s2_def Let_def init_def)
  show ?thesis
  proof (cases "r3 = Stopped \<and> \<not> simulation_mode s3")
    case True
    with rs have "s = emit CapRelease s3" "r = Stopped" by simp_all
    with True t3 show ?thesis by (simp add: emit_def)
  next
    case False
    with rs have "s = s3" "r = r3" by auto
    with False t3 show ?thesis by auto
  qed
qed

text \<open>
  C2. A session whose device opened and whose first read failed, stopped on the next test
  of the loop condition: the loop ends in the synthetic mode, so the guarded
  \<open>cap.release()\<close> after the loop is skipped and the trace holds no release of the
  device that was opened.
\<close>

theorem fallback_session_never_released:
  "is_opened cv_demo \<and>
   capture_loop cv_demo [env False False ''b'', env True True ''c''] (init 0 10)
     = (Stopped,
        \<lparr>camera_index = 0, simulation_fps = 10, latest_jpeg = None, stop_event = True,
         simulation_mode = True,
         trace = [VideoCapture 0, CapSet CAP_PROP_FRAME_WIDTH 640,
                  CapSet CAP_PROP_FRAME_HEIGHT 480, CapRead False]\<rparr>) \<and>
   count_list (trace (snd (capture_loop cv_demo [env False False ''b'', env True True ''c''] (init 0 10))))
     CapRelease = 0"
  by (simp add: capture_loop_def cv_demo_def env_def init_def emit_def Let_def stop_def
        loop_body_def encode_publish_def sleep_cycle_def set_latest_def nanoseconds_def
        PyTime_MIN_def PyTime_MAX_def)

section \<open>The shared slot\<close>

lemma sleep_cycle_accepted:
  assumes "period_accepted (simulation_fps s)"
  shows "sleep_cycle s = (None, emit (Sleep (1 / simulation_fps s)) s)"
proof -
  from assms have pos: "0 < 1 / simulation_fps s" and ne: "simulation_fps s \<noteq> 0"
    and le: "nanoseconds (1 / simulation_fps s) \<le> PyTime_MAX"
    by (simp_all add: period_accepted_def)
  from pos have "0 \<le> 1 / simulation_fps s * 1000000000" by simp
  then have "0 \<le> \<lceil>1 / simulation_fps s * 1000000000\<rceil>" by linarith
  with pos have nn: "0 \<le> nanoseconds (1 / simulation_fps s)" by (simp add: nanoseconds_def)
  have "PyTime_MIN < 0" by (simp add: PyTime_MIN_def)
  with nn le ne show ?thesis by (simp add: sleep_cycle_def)
qed

lemma period_accepted_10: "period_accepted 10"
  by (simp add: period_accepted_def nanoseconds_def PyTime_MAX_def)

lemma successful_cycle:
  assumes rate: "period_accepted (simulation_fps s)" and live: "\<not> stop_event s" and ok: "successful cv s e b"
  shows "\<exists>s1. loop_body cv e s = (None, s1) \<and> latest_jpeg s1 = Some b \<and>
           simulation_fps s1 = simulation_fps s \<and> stop_event s1 = stop_event s \<and>
           simulation_mode s1 = simulation_mode s"
proof -
  from ok obtain f where f: "frame_of cv e s = Some f" and enc: "imencode cv f = Inr (Some b)"
    by (auto simp: successful_def split: option.splits)
  define s1 where "s1 = emit (Sleep (1 / simulation_fps s))
      (set_latest b (emit (Imencode f) (emit (acquisition s) s)))"
  have b1: "loop_body cv e s = (None, s1)"
    using rate f enc
    by (auto simp: loop_body_def encode_publish_def sleep_cycle_accepted frame_of_def
          acquisition_def s1_def emit_def set_latest_def Let_def split: if_splits prod.splits)
  have "latest_jpeg s1 = Some b" "simulation_fps s1 = simulation_fps s"
    "stop_event s1 = stop_event s" "simulation_mode s1 = simulation_mode s"
    by (simp_all add: s1_def emit_def set_latest_def)
  with b1 show ?thesis by blast
qed

lemma successful_cycles:
  assumes "list_all2 (successful cv s) es bs" and "period_accepted (simulation_fps s)" and "\<not> stop_event s"
  shows "\<exists>s'. capture_cycles cv es s = (Running, s') \<and>
           latest_jpeg s' = (if bs = [] then latest_jpeg s else Some (last bs))"
  using assms
proof (induction es arbitrary: bs s)
  case Nil
  then show ?case by simp
next
  case (Cons e es)
  from Cons.prems(1) obtain b bs' where bs: "bs = b # bs'" and ok: "successful cv s e b"
    and rest: "list_all2 (successful cv s) es bs'"
    by (auto simp: list_all2_Cons1)
  from successful_cycle [OF Cons.prems(2) Cons.prems(3) ok]
  obtain s1 where b1: "loop_body cv e s = (None, s1)" and l1: "latest_jpeg s1 = Some b"
    and keep: "simulation_fps s1 = simulation_fps s" "stop_event s1 = stop_event s"
      "simulation_mode s1 = simulation_mode s"
    by blast
  from ok have ns: "\<not> stop_called e" by (simp add: successful_def)
  have same: "successful cv s1 = successful cv s"
    using keep(3) by (intro ext) (simp add: successful_def frame_of_def)
  from rest same have rest1: "list_all2 (successful cv s1) es bs'" by simp
  from keep Cons.prems have pre1: "period_accepted (simulation_fps s1)" "\<not> stop_event s1" by simp_all
  from Cons.IH [OF rest1 pre1]
  obtain s' where c: "capture_cycles cv es s1 = (Running, s')"
    and l: "latest_jpeg s' = (if bs' = [] then latest_jpeg s1 else Some (last bs'))"
    by blast
  have "capture_cycles cv (e # es) s = (Running, s')"
    using ns Cons.prems(3) b1 c by (simp add: Let_def)
  with l l1 bs show ?case by auto
qed

text \<open>
  C3. After \<open>N\<close> publishes (\<open>N\<close> at least one) a read of the slot returns the bytes of the
  \<open>N\<close>-th publish, whatever the slot held before. The same holds for the loop: \<open>N\<close>
  successful cycles of a running loop whose sleep returns, whose encoded frames are
  \<open>bs\<close> in this order, leave the loop running with a slot from which a read returns
  the \<open>N\<close>-th of them.
\<close>

theorem slot_holds_nth_publish:
  assumes "N = length bs" and "0 < N"
  shows "fst (get_latest_jpeg (fold set_latest bs s)) = Some (bs ! (N - 1)) \<and>
         (\<forall>es. list_all2 (successful cv s) es bs \<and> period_accepted (simulation_fps s) \<and> \<not> stop_event s \<longrightarrow>
            (\<exists>s'. capture_cycles cv es s = (Running, s') \<and>
               fst (get_latest_jpeg s') = Some (bs ! (N - 1))))"
proof -
  from assms have ne: "bs \<noteq> []" by auto
  then have "bs = butlast bs @ [last bs]" by simp
  then have "latest_jpeg (fold set_latest bs s) = Some (last bs)"
    using fold_set_latest_snoc [of "butlast bs" "last bs" s] by simp
  with ne assms have slot: "fst (get_latest_jpeg (fold set_latest bs s)) = Some (bs ! (N - 1))"
    by (simp add: get_latest_jpeg_def last_conv_nth)
  have loop: "\<exists>s'. capture_cycles cv es s = (Running, s') \<and>
               fst (get_latest_jpeg s') = Some (bs ! (N - 1))"
    if "list_all2 (successful cv s) es bs" "period_accepted (simulation_fps s)" "\<not> stop_event s" for es
    using successful_cycles [OF that] ne assms
    by (auto simp: get_latest_jpeg_def last_conv_nth)
  from slot loop show ?thesis by blast
qed

theorem slot_holds_nth_publish_witness:
  "(3::nat) = length [''JPEG:one'', ''JPEG:two'', ''JPEG:three''] \<and>
   fst (get_latest_jpeg (fold set_latest [''JPEG:one'', ''JPEG:two'', ''JPEG:three'']
          (init 0 10 :: string frame_source))) = Some ''JPEG:three'' \<and>
   list_all2 (successful cv_demo (init 0 10))
     [env False True ''one'', env False True ''two'', env False True ''three'']
     [''JPEG:one'', ''JPEG:two'', ''JPEG:three''] \<and>
   (\<exists>s'. capture_cycles cv_demo
            [env False True ''one'', env False True ''two'', env False True ''three''] (init 0 10)
          = (Running, s') \<and>
      fst (get_latest_jpeg s') = Some ''JPEG:three'')"
proof -
  let ?bs = "[''JPEG:one'', ''JPEG:two'', ''JPEG:three'']"
  let ?es = "[env False True ''one'', env False True ''two'', env False True ''three'']"
  let ?s = "init 0 10 :: string frame_source"
  have n: "(3::nat) = length ?bs" by simp
  have ok: "list_all2 (successful cv_demo ?s) ?es ?bs"
    by (simp add: successful_def frame_of_def cv_demo_def env_def init_def)
  have pre: "period_accepted (simulation_fps ?s)" "\<not> stop_event ?s"
    by (simp_all add: init_def period_accepted_10)
  have p: "0 < (3::nat)" by simp
  note nth = slot_holds_nth_publish [OF n p, of ?s cv_demo]
  from nth have slot0: "fst (get_latest_jpeg (fold set_latest ?bs ?s)) = Some (?bs ! (3 - 1))"
    by (rule conjunct1)
  then have slot: "fst (get_latest_jpeg (fold set_latest ?bs ?s)) = Some ''JPEG:three''"
    by simp
  from nth have every: "\<forall>es. list_all2 (successful cv_demo ?s) es ?bs \<and> period_accepted (simulation_fps ?s) \<and>
        \<not> stop_event ?s \<longrightarrow>
      (\<exists>s'. capture_cycles cv_demo es ?s = (Running, s') \<and>
         fst (get_latest_jpeg s') = Some (?bs ! (3 - 1)))"
    by (rule conjunct2)
  have hyp: "list_all2 (successful cv_demo ?s) ?es ?bs \<and> period_accepted (simulation_fps ?s) \<and> \<not> stop_event ?s"
    by (intro conjI ok pre)
  have "\<exists>s'. capture_cycles cv_demo ?es ?s = (Running, s') \<and>
      fst (get_latest_jpeg s') = Some (?bs ! (3 - 1))"
    by (rule mp [OF spec [OF every] hyp])
  moreover have "?bs ! (3 - 1) = ''JPEG:three''" by simp
  ultimately have loop: "\<exists>s'. capture_cycles cv_demo ?es ?s = (Running, s') \<and>
      fst (get_latest_jpeg s') = Some ''JPEG:three''" by (simp only:)
  show ?thesis by (intro conjI n slot ok loop)
qed

text \<open>
  C7. Reading the slot returns the state it was given, so a second read with no publish
  in between returns the same bytes (or the same absence of bytes) as the first.
\<close>

theorem get_latest_jpeg_idempotent:
  "snd (get_latest_jpeg s) = s \<and>
   fst (get_latest_jpeg (snd (get_latest_jpeg s))) = fst (get_latest_jpeg s)"
  by (simp add: get_latest_jpeg_def)

section \<open>Encode failures\<close>




section \<open>The stream generator\<close>

lemma mjpeg_stream_length: "length (mjpeg_stream gs) = length gs"
  by (induction gs) (auto split: option.splits)

lemma mjpeg_stream_append: "mjpeg_stream (gs @ hs) = mjpeg_stream gs @ mjpeg_stream hs"
  by (induction gs) (auto split: option.splits)

lemma mjpeg_stream_nth_empty:
  "i < length gs \<Longrightarrow> gs ! i = Some fs \<Longrightarrow> latest_jpeg fs = None \<Longrightarrow>
   mjpeg_stream gs ! i = Wait (5 / 100)"
proof (induction gs arbitrary: i)
  case Nil
  then show ?case by simp
next
  case (Cons g gs)
  then show ?case
    by (cases i) (auto simp: get_latest_jpeg_def split: option.splits)
qed

lemma mjpeg_stream_nth_unset:
  "i < length gs \<Longrightarrow> gs ! i = None \<Longrightarrow> mjpeg_stream gs ! i = Wait (1 / 10)"
proof (induction gs arbitrary: i)
  case Nil
  then show ?case by simp
next
  case (Cons g gs)
  then show ?case
    by (cases i) (auto simp: get_latest_jpeg_def split: option.splits)
qed

lemma mjpeg_stream_nth_frame:
  "i < length gs \<Longrightarrow> gs ! i = Some fs \<Longrightarrow> latest_jpeg fs = Some jpeg \<Longrightarrow>
   mjpeg_stream gs ! i =
     Yield (''--frame'' @ CRLF @ ''Content-Type: image/jpeg'' @ CRLF @ CRLF @ jpeg @ CRLF)"
proof (induction gs arbitrary: i)
  case Nil
  then show ?case by simp
next
  case (Cons g gs)
  then show ?case
    by (cases i) (auto simp: get_latest_jpeg_def CRLF_def split: option.splits)
qed

lemma mjpeg_stream_waiting:
  "\<forall>fs \<in> set waiting. latest_jpeg fs = None \<Longrightarrow>
   mjpeg_stream (map Some waiting) = replicate (length waiting) (Wait (5 / 100))"
  by (induction waiting) (auto simp: get_latest_jpeg_def)

text \<open>
  C5. The generator answers every poll with exactly one action. At a poll that finds a
  frame source, it yields a part if and only if the read of the slot returned bytes, and
  when the read returned nothing it sleeps 0.05 seconds and polls again. A consumer whose
  first polls all find the slot empty gets one such sleep per poll and then, at the first
  poll that finds a frame, the part for that frame; the stream goes on from there.
\<close>

theorem stream_emits_only_frames:
  assumes "\<forall>fs \<in> set waiting. latest_jpeg fs = None" and "latest_jpeg ready = Some jpeg"
  shows "(\<forall>gs i fs. i < length (gs :: 'f frame_source option list) \<and> gs ! i = Some fs \<longrightarrow>
            length (mjpeg_stream gs) = length gs \<and>
            (is_yield (mjpeg_stream gs ! i) \<longleftrightarrow> fst (get_latest_jpeg fs) \<noteq> None) \<and>
            (fst (get_latest_jpeg fs) = None \<longrightarrow> mjpeg_stream gs ! i = Wait (5 / 100))) \<and>
         mjpeg_stream (map Some waiting @ Some ready # rest) =
           replicate (length waiting) (Wait (5 / 100))
           @ Yield (''--frame'' @ CRLF @ ''Content-Type: image/jpeg'' @ CRLF @ CRLF @ jpeg @ CRLF)
           # mjpeg_stream rest"
proof -
  have a: "length (mjpeg_stream gs) = length gs \<and>
           (is_yield (mjpeg_stream gs ! i) \<longleftrightarrow> fst (get_latest_jpeg fs) \<noteq> None) \<and>
           (fst (get_latest_jpeg fs) = None \<longrightarrow> mjpeg_stream gs ! i = Wait (5 / 100))"
    if "i < length gs" "gs ! i = Some fs" for gs :: "'f frame_source option list" and i fs
  proof (cases "latest_jpeg fs")
    case None
    with that show ?thesis
      by (simp add: mjpeg_stream_nth_empty mjpeg_stream_length get_latest_jpeg_def is_yield_def)
  next
    case (Some j)
    with that show ?thesis
      by (simp add: mjpeg_stream_nth_frame mjpeg_stream_length get_latest_jpeg_def is_yield_def)
  qed
  have b: "mjpeg_stream (map Some waiting @ Some ready # rest) =
           replicate (length waiting) (Wait (5 / 100))
           @ Yield (''--frame'' @ CRLF @ ''Content-Type: image/jpeg'' @ CRLF @ CRLF @ jpeg @ CRLF)
           # mjpeg_stream rest"
    using assms
    by (simp add: mjpeg_stream_append mjpeg_stream_waiting get_latest_jpeg_def CRLF_def)
  from a b show ?thesis by blast
qed

theorem stream_emits_only_frames_witness:
  "mjpeg_stream [Some (slot None), Some (slot None), Some (slot (Some ''JPEG:a'')),
                 Some (slot (Some ''JPEG:b''))] =
     [Wait (5 / 100), Wait (5 / 100),
      Yield (''--frame'' @ CRLF @ ''Content-Type: image/jpeg'' @ CRLF @ CRLF @ ''JPEG:a'' @ CRLF),
      Yield (''--frame'' @ CRLF @ ''Content-Type: image/jpeg'' @ CRLF @ CRLF @ ''JPEG:b'' @ CRLF)]"
proof -
  have w: "\<forall>fs \<in> set [slot None, slot None]. latest_jpeg fs = None" by (simp add: slot_def)
  have r: "latest_jpeg (slot (Some ''JPEG:a'')) = Some ''JPEG:a''" by (simp add: slot_def)
  from stream_emits_only_frames [OF w r, of "[Some (slot (Some ''JPEG:b''))]"]
  show ?thesis by (simp add: slot_def get_latest_jpeg_def CRLF_def)
qed

text \<open>
  C6. The response carries the content type \<open>multipart/x-mixed-replace; boundary=frame\<close>,
  and every part in its body is \<open>--frame\<close>, CRLF, \<open>Content-Type: image/jpeg\<close>, CRLF, CRLF,
  the bytes that the read of the slot returned at that poll, CRLF.
\<close>

theorem stream_part_format:
  "mimetype (stream gs) = ''multipart/x-mixed-replace; boundary=frame'' \<and>
   length (body (stream gs)) = length gs \<and>
   (\<forall>i p. i < length gs \<and> body (stream gs) ! i = Yield p \<longrightarrow>
      (\<exists>fs jpeg. gs ! i = Some fs \<and> fst (get_latest_jpeg fs) = Some jpeg \<and>
         p = ''--frame'' @ CRLF @ ''Content-Type: image/jpeg'' @ CRLF @ CRLF @ jpeg @ CRLF))"
proof -
  have "\<exists>fs jpeg. gs ! i = Some fs \<and> fst (get_latest_jpeg fs) = Some jpeg \<and>
         p = ''--frame'' @ CRLF @ ''Content-Type: image/jpeg'' @ CRLF @ CRLF @ jpeg @ CRLF"
    if i: "i < length gs" and y: "mjpeg_stream gs ! i = Yield p" for i p
  proof (cases "gs ! i")
    case None
    with i y show ?thesis by (simp add: mjpeg_stream_nth_unset)
  next
    case (Some fs)
    show ?thesis
    proof (cases "latest_jpeg fs")
      case None
      with i y Some show ?thesis by (simp add: mjpeg_stream_nth_empty)
    next
      case (Some jpeg)
      with i y \<open>gs ! i = Some fs\<close> show ?thesis
        by (simp add: mjpeg_stream_nth_frame get_latest_jpeg_def)
    qed
  qed
  then show ?thesis by (simp add: stream_def mjpeg_stream_length)
qed

theorem stream_part_format_witness:
  "body (stream [Some (slot None), Some (slot (Some ''JPEG:a''))]) ! 1 =
     Yield (''--frame'' @ [CHR 0x0D, CHR 0x0A] @ ''Content-Type: image/jpeg''
            @ [CHR 0x0D, CHR 0x0A, CHR 0x0D, CHR 0x0A] @ ''JPEG:a'' @ [CHR 0x0D, CHR 0x0A]) \<and>
   (\<exists>fs jpeg. [Some (slot None), Some (slot (Some ''JPEG:a''))] ! 1 = Some fs \<and>
      fst (get_latest_jpeg fs) = Some jpeg \<and>
      ''--frame'' @ [CHR 0x0D, CHR 0x0A] @ ''Content-Type: image/jpeg''
            @ [CHR 0x0D, CHR 0x0A, CHR 0x0D, CHR 0x0A] @ ''JPEG:a'' @ [CHR 0x0D, CHR 0x0A]
        = ''--frame'' @ CRLF @ ''Content-Type: image/jpeg'' @ CRLF @ CRLF @ jpeg @ CRLF) \<and>
   mimetype (stream [Some (slot None), Some (slot (Some ''JPEG:a''))]) =
     ''multipart/x-mixed-replace; boundary=frame''"
proof -
  let ?gs = "[Some (slot None), Some (slot (Some ''JPEG:a''))]"
  let ?p = "''--frame'' @ [CHR 0x0D, CHR 0x0A] @ ''Content-Type: image/jpeg''
            @ [CHR 0x0D, CHR 0x0A, CHR 0x0D, CHR 0x0A] @ ''JPEG:a'' @ [CHR 0x0D, CHR 0x0A]"
  have y: "body (stream ?gs) ! 1 = Yield ?p"
    by (simp add: stream_def slot_def get_latest_jpeg_def)
  have i: "(1::nat) < length ?gs" by simp
  note fmt = stream_part_format [of ?gs]
  from fmt have m: "mimetype (stream ?gs) = ''multipart/x-mixed-replace; boundary=frame''"
    by blast
  from fmt i y have "\<exists>fs jpeg. ?gs ! 1 = Some fs \<and> fst (get_latest_jpeg fs) = Some jpeg \<and>
      ?p = ''--frame'' @ CRLF @ ''Content-Type: image/jpeg'' @ CRLF @ CRLF @ jpeg @ CRLF"
    by blast
  with y m show ?thesis by blast
qed

section \<open>Start-up configuration\<close>

lemma loop_body_config:
  "loop_body cv e s = (x, s') \<Longrightarrow>
   camera_index s' = camera_index s \<and> simulation_fps s' = simulation_fps s"
  by (auto simp: loop_body_def encode_publish_def sleep_cycle_def set_latest_def emit_def Let_def
           split: if_splits option.splits prod.splits sum.splits)

lemma capture_cycles_config:
  "capture_cycles cv es s = (r, s') \<Longrightarrow>
   camera_index s' = camera_index s \<and> simulation_fps s' = simulation_fps s"
proof (induction es arbitrary: s)
  case Nil
  then show ?case by simp
next
  case (Cons e es)
  define s0 where "s0 = (if stop_called e then stop s else s)"
  have c0: "camera_index s0 = camera_index s \<and> simulation_fps s0 = simulation_fps s"
    by (simp add: s0_def stop_def)
  show ?case
  proof (cases "stop_event s0")
    case True
    with Cons.prems have "s' = s0" by (simp add: s0_def Let_def)
    with c0 show ?thesis by simp
  next
    case False
    obtain x s1 where b: "loop_body cv e s0 = (x, s1)" by (cases "loop_body cv e s0")
    note c1 = loop_body_config [OF b]
    show ?thesis
    proof (cases x)
      case None
      with Cons.prems False b have "capture_cycles cv es s1 = (r, s')"
        by (simp add: s0_def Let_def)
      from Cons.IH [OF this] c1 c0 show ?thesis by simp
    next
      case (Some a)
      with Cons.prems False b have "s' = s1" by (simp add: s0_def Let_def)
      with c1 c0 show ?thesis by simp
    qed
  qed
qed

lemma capture_loop_config:
  assumes "capture_loop cv es s = (r, s')"
  shows "camera_index s' = camera_index s \<and> simulation_fps s' = simulation_fps s"
proof -
  define s2 where "s2 = (let s1 = emit (VideoCapture (camera_index s)) s in
     if \<not> is_opened cv then s1\<lparr>simulation_mode := True\<rparr>
     else emit (CapSet CAP_PROP_FRAME_HEIGHT 480) (emit (CapSet CAP_PROP_FRAME_WIDTH 640) s1))"
  have c2: "camera_index s2 = camera_index s \<and> simulation_fps s2 = simulation_fps s"
    by (simp add: s2_def emit_def Let_def)
  obtain r3 s3 where c: "capture_cycles cv es s2 = (r3, s3)" by (cases "capture_cycles cv es s2")
  note c3 = capture_cycles_config [OF c]
  have "s' = (if r3 = Stopped \<and> \<not> simulation_mode s3 then emit CapRelease s3 else s3)"
    using assms c by (cases r3) (auto simp: capture_loop_def s2_def Let_def)
  with c3 c2 show ?thesis by (auto simp: emit_def)
qed

text \<open>
  C8. With no option on the command line, the parsed arguments are host \<open>0.0.0.0\<close>,
  camera index 0 and rate 10, and the port is 8080 when \<open>MJPEG_PORT\<close> is unset and the
  integer \<open>int\<close> reads from its value when it is set (a value \<open>int\<close> rejects makes start-up
  raise that exception). \<open>main\<close> builds the frame source from the camera index and rate and
  binds host and port, and no run of the capture loop changes the index or the rate of
  the frame source.
\<close>

theorem startup_defaults:
  assumes "int_of_str py ''8080'' = Inr 8080"
  shows "(environ ''MJPEG_PORT'' = None \<longrightarrow>
            parse_args py environ no_options =
              Inr \<lparr>host = ''0.0.0.0'', port = 8080, camera = 0, fps = 10\<rparr>) \<and>
         (\<forall>v p. environ ''MJPEG_PORT'' = Some v \<and> int_of_str py v = Inr p \<longrightarrow>
            parse_args py environ no_options =
              Inr \<lparr>host = ''0.0.0.0'', port = p, camera = 0, fps = 10\<rparr>) \<and>
         (\<forall>cl v x. environ ''MJPEG_PORT'' = Some v \<and> int_of_str py v = Inl x \<longrightarrow>
            parse_args py environ cl = Inl x) \<and>
         (\<forall>cl a. parse_args py environ cl = Inr a \<longrightarrow>
            (main py environ cl :: exn + 'f server) =
              Inr \<lparr>source = init (camera a) (fps a), bind_host = host a, bind_port = port a,
                   threaded = True\<rparr>) \<and>
         (\<forall>cl srv cv es r s. (main py environ cl :: exn + 'f server) = Inr srv \<and>
              capture_loop cv es (source srv) = (r, s) \<longrightarrow>
            camera_index s = camera_index (source srv) \<and>
            simulation_fps s = simulation_fps (source srv))"
proof -
  have d1: "environ ''MJPEG_PORT'' = None \<longrightarrow>
            parse_args py environ no_options =
              Inr \<lparr>host = ''0.0.0.0'', port = 8080, camera = 0, fps = 10\<rparr>"
    using assms by (simp add: parse_args_def getenv_def no_options_def)
  have d2: "\<forall>v p. environ ''MJPEG_PORT'' = Some v \<and> int_of_str py v = Inr p \<longrightarrow>
            parse_args py environ no_options =
              Inr \<lparr>host = ''0.0.0.0'', port = p, camera = 0, fps = 10\<rparr>"
    by (simp add: parse_args_def getenv_def no_options_def)
  have d5: "\<forall>cl v x. environ ''MJPEG_PORT'' = Some v \<and> int_of_str py v = Inl x \<longrightarrow>
            parse_args py environ cl = Inl x"
    by (simp add: parse_args_def getenv_def)
  have d3: "\<forall>cl a. parse_args py environ cl = Inr a \<longrightarrow>
            (main py environ cl :: exn + 'f server) =
              Inr \<lparr>source = init (camera a) (fps a), bind_host = host a, bind_port = port a,
                   threaded = True\<rparr>"
    by (simp add: main_def)
  have d4: "\<forall>cl srv cv es r s. (main py environ cl :: exn + 'f server) = Inr srv \<and>
              capture_loop cv es (source srv) = (r, s) \<longrightarrow>
            camera_index s = camera_index (source srv) \<and>
            simulation_fps s = simulation_fps (source srv)"
    using capture_loop_config by blast
  from d1 d2 d5 d3 d4 show ?thesis by blast
qed

theorem startup_defaults_witness:
  "int_of_str py_ascii ''8080'' = Inr 8080 \<and>
   parse_args py_ascii Map.empty no_options =
     Inr \<lparr>host = ''0.0.0.0'', port = 8080, camera = 0, fps = 10\<rparr> \<and>
   parse_args py_ascii [''MJPEG_PORT'' \<mapsto> ''9000''] no_options =
     Inr \<lparr>host = ''0.0.0.0'', port = 9000, camera = 0, fps = 10\<rparr>"
proof -
  have h: "int_of_str py_ascii ''8080'' = Inr 8080" by (simp add: py_ascii_def decimal_def)
  have p: "int_of_str py_ascii ''9000'' = Inr 9000" by (simp add: py_ascii_def decimal_def)
  have unset: "(Map.empty :: string \<rightharpoonup> string) ''MJPEG_PORT'' = None" by simp
  have given: "[''MJPEG_PORT'' \<mapsto> ''9000''] ''MJPEG_PORT'' = Some ''9000''" by simp
  from startup_defaults [OF h, of Map.empty] unset
  have a: "parse_args py_ascii Map.empty no_options =
     Inr \<lparr>host = ''0.0.0.0'', port = 8080, camera = 0, fps = 10\<rparr>" by blast
  from startup_defaults [OF h, of "[''MJPEG_PORT'' \<mapsto> ''9000'']"] given p
  have b: "parse_args py_ascii [''MJPEG_PORT'' \<mapsto> ''9000''] no_options =
     Inr \<lparr>host = ''0.0.0.0'', port = 9000, camera = 0, fps = 10\<rparr>" by blast
  from h a b show ?thesis by blast
qed

section \<open>The slot is never cleared\<close>

lemma loop_body_keeps_frame:
  "loop_body cv e s = (x, s') \<Longrightarrow> latest_jpeg s \<noteq> None \<Longrightarrow> latest_jpeg s' \<noteq> None"
  by (auto simp: loop_body_def encode_publish_def sleep_cycle_def set_latest_def emit_def Let_def
           split: if_splits option.splits prod.splits sum.splits)

lemma capture_cycles_keeps_frame:
  "capture_cycles cv es s = (r, s') \<Longrightarrow> latest_jpeg s \<noteq> None \<Longrightarrow> latest_jpeg s' \<noteq> None"
proof (induction es arbitrary: s)
  case Nil
  then show ?case by simp
next
  case (Cons e es)
  define s0 where "s0 = (if stop_called e then stop s else s)"
  have l0: "latest_jpeg s0 \<noteq> None" using Cons.prems(2) by (simp add: s0_def stop_def)
  show ?case
  proof (cases "stop_event s0")
    case True
    with Cons.prems(1) have "s' = s0" by (simp add: s0_def Let_def)
    with l0 show ?thesis by simp
  next
    case False
    obtain x s1 where b: "loop_body cv e s0 = (x, s1)" by (cases "loop_body cv e s0")
    note l1 = loop_body_keeps_frame [OF b l0]
    show ?thesis
    proof (cases x)
      case None
      with Cons.prems(1) False b have "capture_cycles cv es s1 = (r, s')"
        by (simp add: s0_def Let_def)
      from Cons.IH [OF this l1] show ?thesis .
    next
      case (Some a)
      with Cons.prems(1) False b have "s' = s1" by (simp add: s0_def Let_def)
      with l1 show ?thesis by simp
    qed
  qed
qed

lemma capture_loop_keeps_frame:
  assumes "capture_loop cv es s = (r, s')" and "latest_jpeg s \<noteq> None"
  shows "latest_jpeg s' \<noteq> None"
proof -
  define s2 where "s2 = (let s1 = emit (VideoCapture (camera_index s)) s in
     if \<not> is_opened cv then s1\<lparr>simulation_mode := True\<rparr>
     else emit (CapSet CAP_PROP_FRAME_HEIGHT 480) (emit (CapSet CAP_PROP_FRAME_WIDTH 640) s1))"
  have l2: "latest_jpeg s2 \<noteq> None" using assms(2) by (simp add: s2_def emit_def Let_def)
  obtain r3 s3 where c: "capture_cycles cv es s2 = (r3, s3)" by (cases "capture_cycles cv es s2")
  note l3 = capture_cycles_keeps_frame [OF c l2]
  have "s' = (if r3 = Stopped \<and> \<not> simulation_mode s3 then emit CapRelease s3 else s3)"
    using assms(1) c by (cases r3) (auto simp: capture_loop_def s2_def Let_def)
  with l3 show ?thesis by auto
qed

lemma perform_keeps_frame:
  "latest_jpeg s \<noteq> None \<Longrightarrow> latest_jpeg (perform cv a s) \<noteq> None"
proof (cases a)
  case (Cycle e)
  assume "latest_jpeg s \<noteq> None"
  with loop_body_keeps_frame [of cv e s "fst (loop_body cv e s)" "snd (loop_body cv e s)"] Cycle
  show ?thesis by simp
next
  case (Loop es)
  assume "latest_jpeg s \<noteq> None"
  with capture_loop_keeps_frame [of cv es s "fst (capture_loop cv es s)" "snd (capture_loop cv es s)"] Loop
  show ?thesis by simp
qed (simp_all add: get_latest_jpeg_def stop_def)

lemma fold_perform_keeps_frame:
  "latest_jpeg s \<noteq> None \<Longrightarrow> latest_jpeg (fold (perform cv) acts s) \<noteq> None"
proof (induction acts arbitrary: s)
  case Nil
  then show ?case by simp
next
  case (Cons a acts)
  from perform_keeps_frame [OF Cons.prems] have "latest_jpeg (perform cv a s) \<noteq> None" .
  from Cons.IH [OF this] show ?case by simp
qed

text \<open>
  C9. A fresh frame source has an empty slot. No publish, read, stop, loop iteration or
  run of the capture thread turns a filled slot into an empty one, so after a publish
  and any sequence of such steps a read returns some bytes.
\<close>

theorem slot_is_never_cleared:
  "latest_jpeg (init cam rate :: 'f frame_source) = None \<and>
   (\<forall>a. latest_jpeg s \<noteq> None \<longrightarrow> latest_jpeg (perform cv a s) \<noteq> None) \<and>
   (\<exists>jpeg. fst (get_latest_jpeg (fold (perform cv) acts (set_latest b s))) = Some jpeg)"
proof -
  have "latest_jpeg (fold (perform cv) acts (set_latest b s)) \<noteq> None"
    by (rule fold_perform_keeps_frame) simp
  then show ?thesis
    by (auto simp: init_def get_latest_jpeg_def perform_keeps_frame)
qed

theorem slot_is_never_cleared_witness:
  "latest_jpeg (init 0 10 :: string frame_source) = None \<and>
   (\<exists>jpeg. fst (get_latest_jpeg
      (fold (perform cv_demo) [Cycle (env False True []), Stop, Read, Loop [env True True ''x'']]
         (set_latest ''JPEG:a'' (init 0 10)))) = Some jpeg)"
  using slot_is_never_cleared [of 0 10 "init 0 10" cv_demo
      "[Cycle (env False True []), Stop, Read, Loop [env True True ''x'']]" "''JPEG:a''"]
  by blast

section \<open>agent.py: what validate\_config rejects\<close>

lemma missing_none:
  "filter (\<lambda>k. config k = None) required_keys = [] \<longleftrightarrow>
     config ''DRONEX_URL'' \<noteq> None \<and> config ''DRONE_ID'' \<noteq> None \<and>
     config ''DRONE_TOKEN'' \<noteq> None \<and> config ''MODE'' \<noteq> None \<and>
     config ''TELEMETRY_INTERVAL'' \<noteq> None"
  by (auto simp: required_keys_def filter_empty_conv)

lemma missing_rejection:
  "filter (\<lambda>k. config k = None) required_keys \<noteq> [] \<longleftrightarrow>
     list_ex (\<lambda>k. config k = None) required_keys"
  by (auto simp: filter_empty_conv list_ex_iff)

lemma validate_config_missing:
  assumes "filter (\<lambda>k. config k = None) required_keys \<noteq> []"
  shows "validate_config py config =
           Inl (ConfigError (''Missing config keys: ''
                  @ join '', '' (filter (\<lambda>k. config k = None) required_keys)))"
  using assms by (simp add: validate_config_def Let_def)

lemma validate_config_present:
  assumes "config ''DRONEX_URL'' = Some u" and "config ''MODE'' = Some m"
    and "config ''TELEMETRY_INTERVAL'' = Some t"
    and "filter (\<lambda>k. config k = None) required_keys = []"
  shows "validate_config py config =
     (if \<not> startswith (rstrip CHR ''/'' (py_str py u)) ''https://'' then
        Inl (ConfigError ''DRONEX_URL must start with https://'')
      else if upper py (py_str py m) \<notin> {''SIMULATION'', ''MAVLINK''} then
        Inl (ConfigError ''MODE must be SIMULATION or MAVLINK'')
      else (case py_int py t of
              Inl x \<Rightarrow> Inl (Builtin x)
            | Inr interval \<Rightarrow>
                if interval \<le> 0 then Inl (ConfigError ''TELEMETRY_INTERVAL must be > 0'')
                else Inr (config(''DRONEX_URL'' \<mapsto> PyStr (rstrip CHR ''/'' (py_str py u)),
                                 ''MODE'' \<mapsto> PyStr (upper py (py_str py m)),
                                 ''TELEMETRY_INTERVAL'' \<mapsto> PyInt interval))))"
  using assms by (simp add: validate_config_def Let_def subscript_def dict_get_def)

text \<open>
  C10, as amended. \<open>validate_config\<close> raises \<open>ConfigError\<close> if and only if a required key
  is missing, or \<open>DRONEX_URL\<close> with its trailing slashes stripped does not start with
  \<open>https://\<close>, or the upper-cased \<open>MODE\<close> is neither \<open>SIMULATION\<close> nor \<open>MAVLINK\<close>, or
  \<open>TELEMETRY_INTERVAL\<close> converts to an integer that is not positive. When it returns, the
  result is the config with \<open>DRONEX_URL\<close> replaced by the stripped URL, \<open>MODE\<close> by the
  upper-cased mode and \<open>TELEMETRY_INTERVAL\<close> by the converted positive integer; and it
  returns whenever nothing is rejected and the interval converts.
\<close>

theorem validate_config_rejects_iff:
  "(is_config_error (validate_config py config) \<longleftrightarrow> rejection py config) \<and>
   (\<forall>out. validate_config py config = Inr out \<longrightarrow>
      (\<exists>u m t n. config ''DRONEX_URL'' = Some u \<and> config ''MODE'' = Some m \<and>
         config ''TELEMETRY_INTERVAL'' = Some t \<and> py_int py t = Inr n \<and> 0 < n \<and>
         out = config(''DRONEX_URL'' \<mapsto> PyStr (rstrip CHR ''/'' (py_str py u)),
                      ''MODE'' \<mapsto> PyStr (upper py (py_str py m)),
                      ''TELEMETRY_INTERVAL'' \<mapsto> PyInt n))) \<and>
   (\<not> rejection py config \<and>
      (\<exists>t n. config ''TELEMETRY_INTERVAL'' = Some t \<and> py_int py t = Inr n) \<longrightarrow>
      (\<exists>out. validate_config py config = Inr out))"
proof (cases "filter (\<lambda>k. config k = None) required_keys = []")
  case False
  then have rej: "rejection py config" by (simp add: rejection_def missing_rejection)
  from False have v: "is_config_error (validate_config py config)"
    by (simp add: validate_config_missing is_config_error_def)
  from v have "\<forall>out. validate_config py config \<noteq> Inr out"
    by (auto simp: is_config_error_def)
  with rej v show ?thesis by simp
next
  case True
  then obtain u m t where k: "config ''DRONEX_URL'' = Some u" "config ''MODE'' = Some m"
    "config ''TELEMETRY_INTERVAL'' = Some t"
    by (auto simp: missing_none)
  from True have nomiss: "\<not> list_ex (\<lambda>k. config k = None) required_keys"
    using missing_rejection [of config] by simp
  note v = validate_config_present [OF k True, of py]
  show ?thesis
  proof (cases "py_int py t")
    case (Inl x)
    with v k nomiss show ?thesis
      by (auto simp: rejection_def is_config_error_def)
  next
    case (Inr n)
    with v k nomiss show ?thesis
      by (auto simp: rejection_def is_config_error_def)
  qed
qed

theorem validate_config_rejects_iff_witness:
  "rejection py_ascii (config_demo ''http://dronex.example'' ''SIMULATION'' (PyInt 5)) \<and>
   is_config_error
     (validate_config py_ascii (config_demo ''http://dronex.example'' ''SIMULATION'' (PyInt 5))) \<and>
   validate_config py_ascii (config_demo ''https://dronex.example//'' ''Simulation'' (PyStr ''5''))
     = Inr ((config_demo ''https://dronex.example//'' ''Simulation'' (PyStr ''5''))
             (''DRONEX_URL'' \<mapsto> PyStr ''https://dronex.example'',
              ''MODE'' \<mapsto> PyStr ''SIMULATION'',
              ''TELEMETRY_INTERVAL'' \<mapsto> PyInt 5))"
proof -
  have r: "rejection py_ascii (config_demo ''http://dronex.example'' ''SIMULATION'' (PyInt 5))"
    by (simp add: rejection_def config_demo_def required_keys_def rstrip_def startswith_def)
  with validate_config_rejects_iff
    [of py_ascii "config_demo ''http://dronex.example'' ''SIMULATION'' (PyInt 5)"]
  have e: "is_config_error
     (validate_config py_ascii (config_demo ''http://dronex.example'' ''SIMULATION'' (PyInt 5)))"
    by blast
  have ok: "validate_config py_ascii (config_demo ''https://dronex.example//'' ''Simulation'' (PyStr ''5''))
     = Inr ((config_demo ''https://dronex.example//'' ''Simulation'' (PyStr ''5''))
             (''DRONEX_URL'' \<mapsto> PyStr ''https://dronex.example'',
              ''MODE'' \<mapsto> PyStr ''SIMULATION'',
              ''TELEMETRY_INTERVAL'' \<mapsto> PyInt 5))"
    by (simp add: validate_config_def Let_def subscript_def dict_get_def config_demo_def
        required_keys_def rstrip_def startswith_def py_ascii_def ascii_upper_def decimal_def)
  from r e ok show ?thesis by blast
qed

text \<open>
  C10, as stated, fails for the URL \<open>https://\<close>: it starts with \<open>https://\<close>, every other
  key is valid, and \<open>validate_config\<close> raises \<open>ConfigError\<close>, because the check is made
  after the trailing slashes are stripped.
\<close>

theorem validate_config_stated_counterexample:
  "validate_config py_ascii (config_demo ''https://'' ''SIMULATION'' (PyInt 5))
     = Inl (ConfigError ''DRONEX_URL must start with https://'') \<and>
   is_config_error (validate_config py_ascii (config_demo ''https://'' ''SIMULATION'' (PyInt 5))) \<and>
   \<not> claimed_rejection py_ascii (config_demo ''https://'' ''SIMULATION'' (PyInt 5))"
  by (simp add: validate_config_def Let_def subscript_def dict_get_def config_demo_def
        required_keys_def rstrip_def startswith_def is_config_error_def claimed_rejection_def
        py_ascii_def ascii_upper_def)

end
